theory Spec2Isabelle
  imports Main "HOL-Library.AList"
begin

section \<open>The scene-tree store of \<^verbatim>\<open>viser/client/src/SceneTree.tsx\<close>\<close>

text \<open>
  The store holds four JavaScript objects used as dictionaries from path strings to
  values. The own properties of such an object are modelled as an association list in
  insertion order: \<^verbatim>\<open>delete d[k]\<close> is \<open>AList.delete k d\<close> and \<^verbatim>\<open>Object.keys(d)\<close> is
  \<open>map fst d\<close>. No statement below depends on the order of the keys.

  The objects are plain objects, so they inherit the properties of
  \<^verbatim>\<open>Object.prototype\<close>, and three operations of the language see them:
  \<^item> \<^verbatim>\<open>k in d\<close> holds for an own key and for an inherited name (\<open>js_in\<close>);
  \<^item> \<^verbatim>\<open>d[k]\<close> is the own entry, else the inherited value (a function, or the prototype
    itself for \<^verbatim>\<open>__proto__\<close>), else \<^verbatim>\<open>undefined\<close>; an inherited value has no
    \<^verbatim>\<open>children\<close> property (\<open>entry_children\<close>);
  \<^item> \<^verbatim>\<open>d[k] = v\<close> writes an own property (an existing key keeps its place, a new key
    goes to the end), except for the key \<^verbatim>\<open>__proto__\<close> on a dictionary with no own
    property of that name: that write reaches the inherited setter, which ignores a
    primitive value (\<open>assign_primitive\<close>) and, for an object, asks the draft to change
    its prototype, which a draft refuses by throwing (\<open>assign_object\<close>).
\<close>

subsection \<open>Path strings\<close>

text \<open>\<^verbatim>\<open>s.split("/")\<close>: the segments between the slashes; never the empty array.\<close>

fun split_slash :: "string \<Rightarrow> string list" where
  "split_slash [] = [[]]"
| "split_slash (c # cs) =
     (if c = CHR ''/'' then [] # split_slash cs
      else (case split_slash cs of
              [] \<Rightarrow> [[c]]
            | seg # segs \<Rightarrow> (c # seg) # segs))"

text \<open>\<^verbatim>\<open>a.join("/")\<close>.\<close>

fun join_slash :: "string list \<Rightarrow> string" where
  "join_slash [] = []"
| "join_slash [s] = s"
| "join_slash (s # t # ts) = s @ ''/'' @ join_slash (t # ts)"

text \<open>
  \<^verbatim>\<open>name.split("/").slice(0, -1).join("/")\<close>, the expression both \<^verbatim>\<open>addSceneNode\<close>
  and \<^verbatim>\<open>removeSceneNode\<close> bind to \<^verbatim>\<open>parent_name\<close>; \<^verbatim>\<open>slice(0, -1)\<close> drops the last
  element.
\<close>

definition parent_name :: "string \<Rightarrow> string" where
  "parent_name nm = join_slash (butlast (split_slash nm))"

text \<open>\<^verbatim>\<open>n.startsWith(searchString)\<close>.\<close>

fun startsWith :: "string \<Rightarrow> string \<Rightarrow> bool" where
  "startsWith n [] = True"
| "startsWith [] (c # cs) = False"
| "startsWith (d # ds) (c # cs) = (d = c \<and> startsWith ds cs)"

subsection \<open>Dictionaries\<close>

type_synonym 'a dict = "(string \<times> 'a) list"

text \<open>The property names of \<^verbatim>\<open>Object.prototype\<close>.\<close>

definition Object_prototype_names :: "string list" where
  "Object_prototype_names =
     [''constructor'', ''__defineGetter__'', ''__defineSetter__'', ''hasOwnProperty'',
      ''__lookupGetter__'', ''__lookupSetter__'', ''isPrototypeOf'',
      ''propertyIsEnumerable'', ''toString'', ''valueOf'', ''__proto__'',
      ''toLocaleString'']"

definition inherited :: "string \<Rightarrow> bool" where
  "inherited k = (k \<in> set Object_prototype_names)"

text \<open>\<^verbatim>\<open>k in d\<close>.\<close>

definition js_in :: "string \<Rightarrow> 'a dict \<Rightarrow> bool" where
  "js_in k d = (case map_of d k of Some v \<Rightarrow> True | None \<Rightarrow> inherited k)"

datatype error = TypeError | DraftError

text \<open>\<^verbatim>\<open>d[k] = v\<close> for a boolean \<^verbatim>\<open>v\<close>.\<close>

definition assign_primitive :: "string \<Rightarrow> 'a \<Rightarrow> 'a dict \<Rightarrow> 'a dict" where
  "assign_primitive k v d =
     (if k = ''__proto__'' \<and> map_of d k = None then d else AList.update k v d)"

text \<open>\<^verbatim>\<open>d[k] = v\<close> for an object \<^verbatim>\<open>v\<close>.\<close>

definition assign_object :: "string \<Rightarrow> 'a \<Rightarrow> 'a dict \<Rightarrow> error + 'a dict" where
  "assign_object k v d =
     (if k = ''__proto__'' \<and> map_of d k = None then Inl DraftError
      else Inr (AList.update k v d))"

subsection \<open>Nodes and state\<close>

text \<open>
  A \<^verbatim>\<open>MakeObject\<close> is an opaque function to a React node. The two templates of the
  module are the first two constructors; any other factory is \<open>Factory f\<close>.
\<close>

datatype 'f MakeObject = rootFrameTemplate | rootAxesTemplate | Factory 'f

text \<open>
  The class declares \<^verbatim>\<open>children: string[]\<close>, and the constructor sets it to the empty
  array. An object that \<^verbatim>\<open>addSceneNode\<close> stores can have \<^verbatim>\<open>children\<close> undefined all
  the same (see there), which is \<open>None\<close>.
\<close>

record 'f SceneNode =
  name :: string
  make_object :: "'f MakeObject"
  children :: "string list option"

definition new_SceneNode :: "string \<Rightarrow> 'f MakeObject \<Rightarrow> 'f SceneNode" where
  "new_SceneNode nm mk = \<lparr>name = nm, make_object = mk, children = Some []\<rparr>"

text \<open>The child list of an entry; no children where \<^verbatim>\<open>children\<close> is undefined.\<close>

definition kids :: "'f SceneNode \<Rightarrow> string list" where
  "kids nd = (case children nd of None \<Rightarrow> [] | Some cs \<Rightarrow> cs)"

record ('f, 'm, 'o) SceneTreeState =
  nodeFromName :: "'f SceneNode dict"
  visibilityFromName :: "bool dict"
  matrixFromName :: "'m dict"
  objFromName :: "'o dict"

definition rootNodeTemplate :: "'f SceneNode" where
  "rootNodeTemplate =
     (let n = new_SceneNode [] rootFrameTemplate
      in n\<lparr>children := Some (kids n @ [''/WorldAxes''])\<rparr>)"

definition rootAxesNode :: "'f SceneNode" where
  "rootAxesNode = new_SceneNode ''/WorldAxes'' rootAxesTemplate"

definition cleanSceneTreeState :: "('f, 'm, 'o) SceneTreeState" where
  "cleanSceneTreeState =
     \<lparr>nodeFromName = [([], rootNodeTemplate), (''/WorldAxes'', rootAxesNode)],
      visibilityFromName = [([], True), (''/WorldAxes'', True)],
      matrixFromName = [],
      objFromName = []\<rparr>"

text \<open>
  \<^verbatim>\<open>d[k].children\<close>, read: a \<^verbatim>\<open>TypeError\<close> where \<^verbatim>\<open>d[k]\<close> is undefined, undefined
  where \<^verbatim>\<open>d[k]\<close> is an inherited value.
\<close>

definition entry_children :: "string \<Rightarrow> 'f SceneNode dict \<Rightarrow> error + string list option" where
  "entry_children k d =
     (case map_of d k of
        Some nd \<Rightarrow> Inr (children nd)
      | None \<Rightarrow> (if inherited k then Inr None else Inl TypeError))"

subsection \<open>The actions\<close>

text \<open>
  Each action body is the function handed to \<^verbatim>\<open>set\<close>: it runs on a draft of the state.
  A body that throws returns \<open>Inl\<close> of the error and \<open>Inr\<close> of the mutated draft
  otherwise. A matrix and a renderable handle are objects, a visibility flag is a
  boolean.
\<close>

definition setObj ::
  "string \<Rightarrow> 'o \<Rightarrow> ('f, 'm, 'o) SceneTreeState \<Rightarrow> error + ('f, 'm, 'o) SceneTreeState" where
  "setObj nm obj state =
     (case assign_object nm obj (objFromName state) of
        Inl e \<Rightarrow> Inl e
      | Inr objs \<Rightarrow> Inr (state\<lparr>objFromName := objs\<rparr>))"

definition setVisibility ::
  "string \<Rightarrow> bool \<Rightarrow> ('f, 'm, 'o) SceneTreeState \<Rightarrow> ('f, 'm, 'o) SceneTreeState" where
  "setVisibility nm visible state =
     state\<lparr>visibilityFromName := assign_primitive nm visible (visibilityFromName state)\<rparr>"

definition setMatrix ::
  "string \<Rightarrow> 'm \<Rightarrow> ('f, 'm, 'o) SceneTreeState \<Rightarrow> error + ('f, 'm, 'o) SceneTreeState" where
  "setMatrix nm matrix state =
     (case assign_object nm matrix (matrixFromName state) of
        Inl e \<Rightarrow> Inl e
      | Inr mats \<Rightarrow> Inr (state\<lparr>matrixFromName := mats\<rparr>))"

definition clearObj ::
  "string \<Rightarrow> ('f, 'm, 'o) SceneTreeState \<Rightarrow> ('f, 'm, 'o) SceneTreeState" where
  "clearObj nm state = state\<lparr>objFromName := AList.delete nm (objFromName state)\<rparr>"

text \<open>
  \<^verbatim>\<open>state.nodeFromName[parent_name].children.push(node.name)\<close>, on the registry that
  already holds the new node. Reading \<^verbatim>\<open>.children\<close> of undefined throws, and so does
  \<^verbatim>\<open>.push\<close> on the undefined \<^verbatim>\<open>children\<close> of an inherited value or of a stored entry.
  The entry of any other path is a draft and takes the push. The entry of the path of
  the node itself is the object the caller handed in, not a draft: the push goes to that
  object and throws when it is frozen, as every object is that has been in the store.
\<close>

definition push_child ::
  "bool \<Rightarrow> 'f SceneNode \<Rightarrow> string \<Rightarrow> 'f SceneNode dict \<Rightarrow> error + 'f SceneNode dict" where
  "push_child frozen node pn nodes =
     (case map_of nodes pn of
        None \<Rightarrow> Inl TypeError
      | Some parent \<Rightarrow>
          (case children parent of
             None \<Rightarrow> Inl TypeError
           | Some cs \<Rightarrow>
               (if pn = name node \<and> frozen then Inl TypeError
                else Inr (AList.update pn
                            (parent\<lparr>children := Some (cs @ [name node])\<rparr>) nodes))))"

text \<open>
  \<^verbatim>\<open>addSceneNode\<close>; \<open>frozen\<close> says whether the node object handed in is frozen. A
  name that is \<^verbatim>\<open>in\<close> the registry takes the first branch: the spread copies the
  fields of the new node and \<^verbatim>\<open>children\<close> is read from \<^verbatim>\<open>state.nodeFromName[node.name]\<close>,
  the stored entry or, for an inherited name without one, an inherited value. Otherwise
  the node is stored, the name is pushed to the child list of \<^verbatim>\<open>parent_name\<close>, and the
  visibility defaults to true when the name is not \<^verbatim>\<open>in\<close> the visibility overlay.
\<close>

definition addSceneNode ::
  "bool \<Rightarrow> 'f SceneNode \<Rightarrow> ('f, 'm, 'o) SceneTreeState \<Rightarrow>
     error + ('f, 'm, 'o) SceneTreeState" where
  "addSceneNode frozen node state =
     (if js_in (name node) (nodeFromName state) then
        (case entry_children (name node) (nodeFromName state) of
           Inl e \<Rightarrow> Inl e
         | Inr stored_children \<Rightarrow>
             (case assign_object (name node) (node\<lparr>children := stored_children\<rparr>)
                     (nodeFromName state) of
                Inl e \<Rightarrow> Inl e
              | Inr nodes \<Rightarrow> Inr (state\<lparr>nodeFromName := nodes\<rparr>)))
      else
        (let pn = parent_name (name node)
         in case assign_object (name node) node (nodeFromName state) of
              Inl e \<Rightarrow> Inl e
            | Inr nodes1 \<Rightarrow>
                (case push_child frozen node pn nodes1 of
                   Inl e \<Rightarrow> Inl e
                 | Inr nodes2 \<Rightarrow>
                     Inr (state\<lparr>nodeFromName := nodes2,
                                visibilityFromName :=
                                  (if js_in (name node) (visibilityFromName state)
                                   then visibilityFromName state
                                   else assign_primitive (name node) True
                                          (visibilityFromName state))\<rparr>))))"

text \<open>
  \<^verbatim>\<open>removeSceneNode\<close>. A name that is not \<^verbatim>\<open>in\<close> the registry logs and returns.
  Otherwise the child list of \<^verbatim>\<open>parent_name\<close> is filtered, which throws where that entry
  or its \<^verbatim>\<open>children\<close> is undefined; the two overlay entries of \<^verbatim>\<open>name\<close> are deleted,
  and every key of the registry that \<^verbatim>\<open>startsWith(name)\<close> is deleted from the registry.
\<close>

definition removeSceneNode ::
  "string \<Rightarrow> ('f, 'm, 'o) SceneTreeState \<Rightarrow> error + ('f, 'm, 'o) SceneTreeState" where
  "removeSceneNode nm state =
     (if \<not> js_in nm (nodeFromName state) then Inr state
      else
        (let pn = parent_name nm
         in case map_of (nodeFromName state) pn of
              None \<Rightarrow> Inl TypeError
            | Some parent \<Rightarrow>
                (case children parent of
                   None \<Rightarrow> Inl TypeError
                 | Some cs \<Rightarrow>
                     (let nodes1 = AList.update pn
                            (parent\<lparr>children :=
                                      Some (filter (\<lambda>child_name. child_name \<noteq> nm) cs)\<rparr>)
                            (nodeFromName state);
                          vis = AList.delete nm (visibilityFromName state);
                          mat = AList.delete nm (matrixFromName state);
                          remove_names = filter (\<lambda>n. startsWith n nm) (map fst nodes1);
                          nodes2 = fold AList.delete remove_names nodes1
                      in Inr (state\<lparr>nodeFromName := nodes2,
                                    visibilityFromName := vis,
                                    matrixFromName := mat\<rparr>)))))"

text \<open>
  \<^verbatim>\<open>resetScene\<close>. The body is \<^verbatim>\<open>state = { ...state, ...cleanSceneTreeState }\<close>: it
  binds the parameter \<^verbatim>\<open>state\<close> to a new object and returns nothing. The draft it was
  given is not written to, so the state that \<^verbatim>\<open>set\<close> produces is the one it started from.
  The local object is the first component of the pair below, the draft the second.
\<close>

definition merged_with_clean ::
  "('f, 'm, 'o) SceneTreeState \<Rightarrow> ('f, 'm, 'o) SceneTreeState" where
  "merged_with_clean state =
     (let clean = cleanSceneTreeState
      in state\<lparr>nodeFromName := nodeFromName clean,
                 visibilityFromName := visibilityFromName clean,
                 matrixFromName := matrixFromName clean,
                 objFromName := objFromName clean\<rparr>)"

definition resetScene_body ::
  "('f, 'm, 'o) SceneTreeState \<Rightarrow> ('f, 'm, 'o) SceneTreeState \<times> ('f, 'm, 'o) SceneTreeState" where
  "resetScene_body draft = (let state = merged_with_clean draft in (state, draft))"

definition resetScene :: "('f, 'm, 'o) SceneTreeState \<Rightarrow> ('f, 'm, 'o) SceneTreeState" where
  "resetScene draft = snd (resetScene_body draft)"

subsection \<open>The store\<close>

text \<open>
  \<^verbatim>\<open>set\<close> of the immer middleware runs the body on a draft and installs the result; when
  the body throws, the draft is dropped, the exception reaches the caller and the store
  keeps the state it had.
\<close>

datatype ('f, 'm, 'o) action =
    SetObj string 'o
  | SetVisibility string bool
  | SetMatrix string 'm
  | ClearObj string
  | AddSceneNode bool "'f SceneNode"
  | RemoveSceneNode string
  | ResetScene

fun body :: "('f, 'm, 'o) action \<Rightarrow> ('f, 'm, 'o) SceneTreeState \<Rightarrow>
    error + ('f, 'm, 'o) SceneTreeState" where
  "body (SetObj nm obj) state = setObj nm obj state"
| "body (SetVisibility nm visible) state = Inr (setVisibility nm visible state)"
| "body (SetMatrix nm matrix) state = setMatrix nm matrix state"
| "body (ClearObj nm) state = Inr (clearObj nm state)"
| "body (AddSceneNode frozen node) state = addSceneNode frozen node state"
| "body (RemoveSceneNode nm) state = removeSceneNode nm state"
| "body ResetScene state = Inr (resetScene state)"

definition dispatch ::
  "('f, 'm, 'o) action \<Rightarrow> ('f, 'm, 'o) SceneTreeState \<Rightarrow> ('f, 'm, 'o) SceneTreeState" where
  "dispatch a state = (case body a state of Inl e \<Rightarrow> state | Inr state' \<Rightarrow> state')"

text \<open>The state of the store after a list of actions, issued in order.\<close>

fun run :: "('f, 'm, 'o) action list \<Rightarrow> ('f, 'm, 'o) SceneTreeState \<Rightarrow>
    ('f, 'm, 'o) SceneTreeState" where
  "run [] state = state"
| "run (a # as) state = run as (dispatch a state)"

text \<open>
  \<open>addNode\<close> is the add of a node that the caller has just built with the constructor
  from a path and a factory: the object is not frozen and its child list is empty.
\<close>

definition addNode :: "string \<times> 'f MakeObject \<Rightarrow> ('f, 'm, 'o) action" where
  "addNode call = AddSceneNode False (new_SceneNode (fst call) (snd call))"

text \<open>
  A list of add calls is in root-to-leaf order from a state when the parent path of each
  call is a key of the registry at the moment the call is issued.
\<close>

fun root_to_leaf :: "(string \<times> 'f MakeObject) list \<Rightarrow> ('f, 'm, 'o) SceneTreeState \<Rightarrow> bool" where
  "root_to_leaf [] state = True"
| "root_to_leaf (call # calls) state =
     (map_of (nodeFromName state) (parent_name (fst call)) \<noteq> None
      \<and> root_to_leaf calls (dispatch (addNode call) state))"

text \<open>All child lists of a registry, one after the other.\<close>

definition all_children :: "'f SceneNode dict \<Rightarrow> string list" where
  "all_children nodes = concat (map (\<lambda>entry. kids (snd entry)) nodes)"

subsection \<open>Example scenes\<close>

type_synonym example_state = "(unit, unit, unit) SceneTreeState"
type_synonym example_action = "(unit, unit, unit) action"

definition clean0 :: example_state where
  "clean0 = cleanSceneTreeState"

definition add_a_ab :: "example_action list" where
  "add_a_ab = [addNode (''/a'', Factory ()), addNode (''/a/b'', Factory ()),
               addNode (''/ab'', Factory ())]"

definition box_scene :: "example_action list" where
  "box_scene = [addNode (''/box'', Factory ()), addNode (''/box/label'', Factory ()),
                SetVisibility ''/box'' False]"

definition tree_calls :: "(string \<times> unit MakeObject) list" where
  "tree_calls = [(''/a'', Factory ()), (''/a/b'', Factory ()), (''/ab'', Factory ()),
                 (''/a'', rootAxesTemplate)]"


text \<open>A node whose path is the name of an inherited method.\<close>

definition toString_node :: "unit SceneNode" where
  "toString_node = new_SceneNode ''toString'' (Factory ())"

text \<open>The store after the root has been removed and \<open>toString_node\<close> added.\<close>

definition toString_scene :: "example_action list" where
  "toString_scene = [RemoveSceneNode [], AddSceneNode False toString_node]"

text \<open>A node at \<open>/a\<close> whose child list the caller has filled with \<open>/a\<close> before the add.\<close>

definition prefilled_node :: "unit SceneNode" where
  "prefilled_node = (new_SceneNode ''/a'' (Factory ()))\<lparr>children := Some [''/a'']\<rparr>"

text \<open>Two lists of one add each: the root path, and the name of an inherited method.\<close>

definition root_call :: "(string \<times> unit MakeObject) list" where
  "root_call = [([], Factory ())]"

definition toString_call :: "(string \<times> unit MakeObject) list" where
  "toString_call = [(''toString'', Factory ())]"

subsection \<open>Invariants of the registry\<close>

text \<open>Every path in a child list is a key of the registry.\<close>

definition children_registered :: "(string \<rightharpoonup> 'f SceneNode) \<Rightarrow> bool" where
  "children_registered m \<longleftrightarrow>
     (\<forall>q nd c. m q = Some nd \<longrightarrow> c \<in> set (kids nd) \<longrightarrow> m c \<noteq> None)"

text \<open>
  Every key other than the root path has its parent path as a key, occurs once in the
  child list stored there and in no other child list.
\<close>

definition unique_parent :: "(string \<rightharpoonup> 'f SceneNode) \<Rightarrow> bool" where
  "unique_parent m \<longleftrightarrow>
     (\<forall>p. m p \<noteq> None \<longrightarrow> p \<noteq> [] \<longrightarrow>
        m (parent_name p) \<noteq> None
        \<and> (\<forall>q nd. m q = Some nd \<longrightarrow>
              count_list (kids nd) p = (if q = parent_name p then 1 else 0)))"

text \<open>Every entry has a child list, and the root path is in none of them.\<close>

definition children_defined :: "(string \<rightharpoonup> 'f SceneNode) \<Rightarrow> bool" where
  "children_defined m \<longleftrightarrow> (\<forall>q nd. m q = Some nd \<longrightarrow> children nd \<noteq> None)"

definition root_unlisted :: "(string \<rightharpoonup> 'f SceneNode) \<Rightarrow> bool" where
  "root_unlisted m \<longleftrightarrow> (\<forall>q nd. m q = Some nd \<longrightarrow> [] \<notin> set (kids nd))"

section \<open>Path lemmas\<close>






lemma parent_name_Nil: "parent_name [] = []"
  by (simp add: parent_name_def)


lemma startsWith_Nil_iff: "startsWith [] nm \<longleftrightarrow> nm = []"
  by (cases nm) auto

section \<open>Dictionary lemmas\<close>

lemma not_inherited_root: "\<not> inherited []"
  by (simp add: inherited_def Object_prototype_names_def)

lemma inherited_proto: "inherited ''__proto__''"
  by (simp add: inherited_def Object_prototype_names_def)

lemma not_inherited_not_proto: "\<not> inherited k \<Longrightarrow> k \<noteq> ''__proto__''"
  using inherited_proto by auto

lemma js_in_iff: "js_in k d \<longleftrightarrow> map_of d k \<noteq> None \<or> inherited k"
  by (simp add: js_in_def split: option.splits)

lemma assign_object_own: "map_of d k = Some old \<Longrightarrow> assign_object k v d = Inr (AList.update k v d)"
  by (simp add: assign_object_def)

lemma assign_object_plain: "k \<noteq> ''__proto__'' \<Longrightarrow> assign_object k v d = Inr (AList.update k v d)"
  by (simp add: assign_object_def)

lemma assign_primitive_plain: "k \<noteq> ''__proto__'' \<Longrightarrow> assign_primitive k v d = AList.update k v d"
  by (simp add: assign_primitive_def)

lemma assign_primitive_twice:
  "assign_primitive k v2 (assign_primitive k v1 d) = assign_primitive k v2 d"
proof (cases "k = ''__proto__'' \<and> map_of d k = None")
  case True
  then have k: "k = ''__proto__''" and n: "map_of d ''__proto__'' = None"
    by auto
  have same: "\<And>v. assign_primitive k v d = d"
    by (simp add: assign_primitive_def k n)
  show ?thesis by (simp only: same)
next
  case False
  then have "assign_primitive k v1 d = AList.update k v1 d"
    by (auto simp: assign_primitive_def)
  moreover have "map_of (AList.update k v1 d) k \<noteq> None"
    by (simp add: update_conv')
  ultimately show ?thesis
    using False by (auto simp: assign_primitive_def)
qed

lemma map_of_fold_delete:
  "map_of (fold AList.delete ks al) k = (if k \<in> set ks then None else map_of al k)"
  by (induction ks arbitrary: al) (auto simp: delete_conv')

lemma fold_delete_all_keys: "fold AList.delete (map fst al) al = []"
proof -
  have "map_of (fold AList.delete (map fst al) al) = Map.empty"
    by (rule ext) (auto simp: map_of_fold_delete map_of_eq_None_iff)
  then show ?thesis by simp
qed

lemma map_of_fold_delete_filter:
  "map_of (fold AList.delete (filter P (map fst al)) al) k =
     (if P k then None else map_of al k)"
  by (auto simp: map_of_fold_delete map_of_eq_None_iff)

section \<open>What \<open>addSceneNode\<close> returns\<close>

lemma addSceneNode_existing:
  assumes "map_of (nodeFromName state) (name node) = Some old"
  shows "addSceneNode frozen node state =
     Inr (state\<lparr>nodeFromName :=
            AList.update (name node) (node\<lparr>children := children old\<rparr>) (nodeFromName state)\<rparr>)"
  using assms
  by (simp add: addSceneNode_def js_in_def entry_children_def assign_object_def)


lemma addSceneNode_fresh:
  assumes "map_of (nodeFromName state) (name node) = None"
    and "\<not> inherited (name node)"
    and "map_of (nodeFromName state) (parent_name (name node)) = Some parent"
    and "children parent = Some cs"
  shows "addSceneNode frozen node state =
     Inr (state\<lparr>nodeFromName :=
            AList.update (parent_name (name node))
              (parent\<lparr>children := Some (cs @ [name node])\<rparr>)
              (AList.update (name node) node (nodeFromName state)),
          visibilityFromName :=
            (if map_of (visibilityFromName state) (name node) = None
             then AList.update (name node) True (visibilityFromName state)
             else visibilityFromName state)\<rparr>)"
proof -
  have ne: "parent_name (name node) \<noteq> name node"
    using assms by auto
  have np: "name node \<noteq> ''__proto__''"
    using assms(2) by (rule not_inherited_not_proto)
  show ?thesis
    using assms ne np
    by (auto simp: addSceneNode_def js_in_def assign_object_def assign_primitive_def
          push_child_def Let_def update_conv' split: option.splits)
qed



text \<open>
  The shape of every registry that \<open>addSceneNode\<close> returns, and what it does to the
  visibility overlay.
\<close>

lemma addSceneNode_Inr_cases:
  assumes "addSceneNode frozen node state = Inr state'"
  shows "(\<exists>ch. js_in (name node) (nodeFromName state)
            \<and> (case map_of (nodeFromName state) (name node) of
                  Some old \<Rightarrow> ch = children old | None \<Rightarrow> ch = None)
            \<and> nodeFromName state' =
                 AList.update (name node) (node\<lparr>children := ch\<rparr>) (nodeFromName state)
            \<and> visibilityFromName state' = visibilityFromName state)
       \<or> (\<exists>parent cs.
             map_of (nodeFromName state) (name node) = None
           \<and> map_of (AList.update (name node) node (nodeFromName state))
                 (parent_name (name node)) = Some parent
           \<and> children parent = Some cs
           \<and> nodeFromName state' =
                 AList.update (parent_name (name node))
                   (parent\<lparr>children := Some (cs @ [name node])\<rparr>)
                   (AList.update (name node) node (nodeFromName state))
           \<and> visibilityFromName state' =
                 (if map_of (visibilityFromName state) (name node) = None
                  then AList.update (name node) True (visibilityFromName state)
                  else visibilityFromName state))"
proof (cases "js_in (name node) (nodeFromName state)")
  case True
  with assms show ?thesis
    by (auto simp: addSceneNode_def entry_children_def assign_object_def js_in_def
          split: option.splits if_splits sum.splits)
next
  case False
  then have own: "map_of (nodeFromName state) (name node) = None"
    and plain: "\<not> inherited (name node)"
    by (simp_all add: js_in_iff)
  have np: "name node \<noteq> ''__proto__''"
    using plain by (rule not_inherited_not_proto)
  have vin: "js_in (name node) (visibilityFromName state)
               \<longleftrightarrow> map_of (visibilityFromName state) (name node) \<noteq> None"
    using plain by (simp add: js_in_iff)
  from assms False np obtain nodes2 where
    push: "push_child frozen node (parent_name (name node))
             (AList.update (name node) node (nodeFromName state)) = Inr nodes2"
    and st: "state' = state\<lparr>nodeFromName := nodes2,
                visibilityFromName :=
                  (if js_in (name node) (visibilityFromName state)
                   then visibilityFromName state
                   else assign_primitive (name node) True (visibilityFromName state))\<rparr>"
    by (auto simp: addSceneNode_def assign_object_def Let_def split: sum.splits)
  from push obtain parent cs where
    par: "map_of (AList.update (name node) node (nodeFromName state))
            (parent_name (name node)) = Some parent"
    and ch: "children parent = Some cs"
    and n2: "nodes2 = AList.update (parent_name (name node))
               (parent\<lparr>children := Some (cs @ [name node])\<rparr>)
               (AList.update (name node) node (nodeFromName state))"
    by (auto simp: push_child_def split: option.splits if_splits)
  show ?thesis
    using own par ch n2 st vin np
    by (auto simp: assign_primitive_def)
qed

lemma addSceneNode_keeps_visibility_entry:
  assumes "map_of (visibilityFromName state) (name node) \<noteq> None"
  shows "visibilityFromName (dispatch (AddSceneNode frozen node) state)
           = visibilityFromName state"
proof (cases "addSceneNode frozen node state")
  case (Inl e)
  then show ?thesis by (simp add: dispatch_def)
next
  case (Inr state')
  from addSceneNode_Inr_cases [OF Inr] assms
  have "visibilityFromName state' = visibilityFromName state"
    by auto
  with Inr show ?thesis by (simp add: dispatch_def)
qed

section \<open>What \<open>removeSceneNode\<close> returns\<close>

lemma removeSceneNode_present:
  assumes "js_in nm (nodeFromName state)"
    and "map_of (nodeFromName state) (parent_name nm) = Some parent"
    and "children parent = Some cs"
  shows "removeSceneNode nm state =
     Inr (state\<lparr>nodeFromName :=
            fold AList.delete
              (filter (\<lambda>n. startsWith n nm)
                 (map fst (AList.update (parent_name nm)
                    (parent\<lparr>children := Some (filter (\<lambda>child_name. child_name \<noteq> nm) cs)\<rparr>)
                    (nodeFromName state))))
              (AList.update (parent_name nm)
                 (parent\<lparr>children := Some (filter (\<lambda>child_name. child_name \<noteq> nm) cs)\<rparr>)
                 (nodeFromName state)),
          visibilityFromName := AList.delete nm (visibilityFromName state),
          matrixFromName := AList.delete nm (matrixFromName state)\<rparr>)"
  using assms by (simp add: removeSceneNode_def Let_def)

lemma removeSceneNode_root:
  assumes "map_of (nodeFromName state) [] = Some root"
    and "children root = Some cs"
  shows "removeSceneNode [] state =
     Inr (state\<lparr>nodeFromName := [],
          visibilityFromName := AList.delete [] (visibilityFromName state),
          matrixFromName := AList.delete [] (matrixFromName state)\<rparr>)"
proof -
  have inn: "js_in [] (nodeFromName state)"
    using assms(1) by (simp add: js_in_iff)
  have par: "map_of (nodeFromName state) (parent_name []) = Some root"
    using assms(1) by (simp add: parent_name_Nil)
  show ?thesis
    by (simp add: removeSceneNode_present [OF inn par assms(2)] fold_delete_all_keys)
qed

lemma removeSceneNode_Inr_cases:
  assumes "removeSceneNode nm state = Inr state'"
  shows "state' = state
       \<or> (\<exists>parent cs. map_of (nodeFromName state) (parent_name nm) = Some parent
            \<and> children parent = Some cs
            \<and> nodeFromName state' =
                fold AList.delete
                  (filter (\<lambda>n. startsWith n nm)
                     (map fst (AList.update (parent_name nm)
                        (parent\<lparr>children := Some (filter (\<lambda>child_name. child_name \<noteq> nm) cs)\<rparr>)
                        (nodeFromName state))))
                  (AList.update (parent_name nm)
                     (parent\<lparr>children := Some (filter (\<lambda>child_name. child_name \<noteq> nm) cs)\<rparr>)
                     (nodeFromName state)))"
  using assms
  by (auto simp: removeSceneNode_def Let_def split: if_splits option.splits)

section \<open>A present root has a child list\<close>

lemma dispatch_root_children:
  assumes inv: "\<And>root. map_of (nodeFromName state) [] = Some root \<Longrightarrow> children root \<noteq> None"
    and after: "map_of (nodeFromName (dispatch a state)) [] = Some root'"
  shows "children root' \<noteq> None"
proof (cases "body a state")
  case (Inl e)
  with after inv show ?thesis by (simp add: dispatch_def)
next
  case (Inr state')
  then have d: "dispatch a state = state'" by (simp add: dispatch_def)
  have after': "map_of (nodeFromName state') [] = Some root'"
    using after d by simp
  show ?thesis
  proof (cases a)
    case (AddSceneNode frozen node)
    with Inr have add: "addSceneNode frozen node state = Inr state'" by simp
    from addSceneNode_Inr_cases [OF add] show ?thesis
    proof (elim disjE exE conjE)
      fix ch
      assume inn: "js_in (name node) (nodeFromName state)"
        and ch: "case map_of (nodeFromName state) (name node) of
                    Some old \<Rightarrow> ch = children old | None \<Rightarrow> ch = None"
        and reg: "nodeFromName state' =
                    AList.update (name node) (node\<lparr>children := ch\<rparr>) (nodeFromName state)"
      show ?thesis
      proof (cases "name node = []")
        case True
        from inn True have "map_of (nodeFromName state) [] \<noteq> None"
          using not_inherited_root by (simp add: js_in_iff)
        then obtain old where old: "map_of (nodeFromName state) [] = Some old" by auto
        with ch True have "ch = children old" by simp
        with inv [OF old] after' reg True show ?thesis
          by (auto simp: update_conv')
      next
        case False
        with after' reg inv show ?thesis
          by (auto simp: update_conv')
      qed
    next
      fix parent cs
      assume reg: "nodeFromName state' =
                 AList.update (parent_name (name node))
                   (parent\<lparr>children := Some (cs @ [name node])\<rparr>)
                   (AList.update (name node) node (nodeFromName state))"
        and par: "map_of (AList.update (name node) node (nodeFromName state))
                 (parent_name (name node)) = Some parent"
      show ?thesis
      proof (cases "parent_name (name node) = []")
        case True
        with after' reg show ?thesis by (auto simp: update_conv')
      next
        case False
        then have "name node \<noteq> []" by (auto simp: parent_name_Nil)
        with False after' reg inv show ?thesis
          by (auto simp: update_conv')
      qed
    qed
  next
    case (RemoveSceneNode nm)
    with Inr have rm: "removeSceneNode nm state = Inr state'" by simp
    from removeSceneNode_Inr_cases [OF rm] show ?thesis
    proof (elim disjE exE conjE)
      assume "state' = state"
      with after' inv show ?thesis by simp
    next
      fix parent cs
      assume reg: "nodeFromName state' =
                fold AList.delete
                  (filter (\<lambda>n. startsWith n nm)
                     (map fst (AList.update (parent_name nm)
                        (parent\<lparr>children := Some (filter (\<lambda>child_name. child_name \<noteq> nm) cs)\<rparr>)
                        (nodeFromName state))))
                  (AList.update (parent_name nm)
                     (parent\<lparr>children := Some (filter (\<lambda>child_name. child_name \<noteq> nm) cs)\<rparr>)
                     (nodeFromName state))"
      from after' reg inv show ?thesis
        by (auto simp: map_of_fold_delete_filter update_conv' split: if_splits)
    qed
  next
    case (SetObj nm obj)
    with Inr have "nodeFromName state' = nodeFromName state"
      by (auto simp: setObj_def split: sum.splits)
    with after' inv show ?thesis by simp
  next
    case (SetMatrix nm matrix)
    with Inr have "nodeFromName state' = nodeFromName state"
      by (auto simp: setMatrix_def split: sum.splits)
    with after' inv show ?thesis by simp
  next
    case (SetVisibility nm visible)
    with Inr have "nodeFromName state' = nodeFromName state"
      by (auto simp: setVisibility_def split: sum.splits)
    with after' inv show ?thesis by simp
  next
    case (ClearObj nm)
    with Inr have "nodeFromName state' = nodeFromName state"
      by (auto simp: clearObj_def split: sum.splits)
    with after' inv show ?thesis by simp
  next
    case ResetScene
    with Inr have "nodeFromName state' = nodeFromName state"
      by (auto simp: resetScene_def resetScene_body_def split: sum.splits)
    with after' inv show ?thesis by simp
  qed
qed

lemma run_append: "run (as @ bs) state = run bs (run as state)"
  by (induction as arbitrary: state) auto

lemma run_root_children:
  "map_of (nodeFromName (run as cleanSceneTreeState)) [] = Some root \<Longrightarrow> children root \<noteq> None"
proof (induction as arbitrary: root rule: rev_induct)
  case Nil
  then show ?case
    by (auto simp: cleanSceneTreeState_def rootNodeTemplate_def new_SceneNode_def)
next
  case (snoc a as)
  show ?case
  proof (rule dispatch_root_children)
    show "map_of (nodeFromName (dispatch a (run as cleanSceneTreeState))) [] = Some root"
      using snoc.prems by (simp add: run_append)
    show "\<And>r. map_of (nodeFromName (run as cleanSceneTreeState)) [] = Some r \<Longrightarrow> children r \<noteq> None"
      by (rule snoc.IH)
  qed
qed


section \<open>Add steps keep the tree shape\<close>

lemma readd_step:
  assumes K: "children_registered m" and J: "unique_parent m"
    and D: "children_defined m" and R: "root_unlisted m"
    and old: "m p = Some old" and same: "children nd' = children old"
  shows "children_registered (m(p \<mapsto> nd'))" and "unique_parent (m(p \<mapsto> nd'))"
    and "children_defined (m(p \<mapsto> nd'))" and "root_unlisted (m(p \<mapsto> nd'))"
proof -
  have ks: "kids nd' = kids old"
    using same by (simp add: kids_def)
  show "children_registered (m(p \<mapsto> nd'))"
    using K old ks unfolding children_registered_def
    by (auto split: if_splits)
  show "children_defined (m(p \<mapsto> nd'))"
    using D old same unfolding children_defined_def
    by (auto split: if_splits)
  show "root_unlisted (m(p \<mapsto> nd'))"
    using R old ks unfolding root_unlisted_def
    by (auto split: if_splits)
  show "unique_parent (m(p \<mapsto> nd'))"
    unfolding unique_parent_def
  proof (intro allI impI)
    fix x
    assume x: "(m(p \<mapsto> nd')) x \<noteq> None" and nr: "x \<noteq> []"
    from x old have mx: "m x \<noteq> None" by (auto split: if_splits)
    from J mx nr have par: "m (parent_name x) \<noteq> None"
      and cnt: "\<And>q nd. m q = Some nd \<Longrightarrow>
                 count_list (kids nd) x = (if q = parent_name x then 1 else 0)"
      unfolding unique_parent_def by blast+
    show "(m(p \<mapsto> nd')) (parent_name x) \<noteq> None
        \<and> (\<forall>q nd. (m(p \<mapsto> nd')) q = Some nd \<longrightarrow>
              count_list (kids nd) x = (if q = parent_name x then 1 else 0))"
      using par cnt [OF old] cnt ks by (auto split: if_splits)
  qed
qed

lemma fresh_step:
  assumes K: "children_registered m" and J: "unique_parent m"
    and D: "children_defined m" and R: "root_unlisted m"
    and fresh: "m p = None" and parent: "m (parent_name p) = Some par"
    and pc: "children par = Some cs"
    and leaf: "children new = Some []"
  defines "m' \<equiv> m(p \<mapsto> new, parent_name p \<mapsto> par\<lparr>children := Some (cs @ [p])\<rparr>)"
  shows "children_registered m'" and "unique_parent m'"
    and "children_defined m'" and "root_unlisted m'"
proof -
  have ne: "parent_name p \<noteq> p"
    using fresh parent by auto
  then have pnr: "p \<noteq> []"
    by (auto simp: parent_name_Nil)
  have kp: "kids par = cs" and kn: "kids new = []"
    and kp': "kids (par\<lparr>children := Some (cs @ [p])\<rparr>) = cs @ [p]"
    using pc leaf by (simp_all add: kids_def)
  have notin: "\<And>q nd. m q = Some nd \<Longrightarrow> p \<notin> set (kids nd)"
    using K fresh unfolding children_registered_def by blast
  have old: "\<And>q nd c. m q = Some nd \<Longrightarrow> c \<in> set (kids nd) \<Longrightarrow> m c \<noteq> None"
    using K unfolding children_registered_def by blast
  show "children_registered m'"
    unfolding children_registered_def m'_def
    using kn kp' old old [OF parent] kp by (auto split: if_splits)
  show "children_defined m'"
    using D leaf unfolding children_defined_def m'_def
    by (auto split: if_splits)
  have rl: "\<And>q nd. m q = Some nd \<Longrightarrow> [] \<notin> set (kids nd)"
    using R unfolding root_unlisted_def by blast
  show "root_unlisted m'"
    unfolding root_unlisted_def m'_def
    using kn kp' rl rl [OF parent] kp pnr by (auto split: if_splits)
  show "unique_parent m'"
    unfolding unique_parent_def
  proof (intro allI impI)
    fix x
    assume x: "m' x \<noteq> None" and nr: "x \<noteq> []"
    show "m' (parent_name x) \<noteq> None
        \<and> (\<forall>q nd. m' q = Some nd \<longrightarrow>
              count_list (kids nd) x = (if q = parent_name x then 1 else 0))"
    proof (cases "x = p")
      case True
      have "count_list cs p = 0"
        using notin [OF parent] kp by (simp add: count_list_0_iff)
      moreover have "\<And>q nd. m q = Some nd \<Longrightarrow> count_list (kids nd) p = 0"
        using notin by (simp add: count_list_0_iff)
      ultimately show ?thesis
        using True ne kn kp' unfolding m'_def by (auto split: if_splits)
    next
      case False
      with x parent have mx: "m x \<noteq> None"
        unfolding m'_def by (auto split: if_splits)
      from J mx nr have par': "m (parent_name x) \<noteq> None"
        and cnt: "\<And>q nd. m q = Some nd \<Longrightarrow>
                   count_list (kids nd) x = (if q = parent_name x then 1 else 0)"
        unfolding unique_parent_def by blast+
      have pne: "p \<noteq> parent_name x"
        using par' fresh by auto
      show ?thesis
        using False par' cnt [OF parent] cnt pne kn kp' kp unfolding m'_def
        by (auto split: if_splits)
    qed
  qed
qed

lemma count_list_concat:
  "count_list (concat xss) x = sum_list (map (\<lambda>xs. count_list xs x) xss)"
  by (induction xss) auto

lemma sum_list_indicator:
  fixes f :: "'v \<Rightarrow> nat"
  assumes "distinct (map fst al)"
    and "\<And>q nd. (q, nd) \<in> set al \<Longrightarrow> f nd = (if q = k then 1 else 0)"
  shows "sum_list (map (\<lambda>entry. f (snd entry)) al) = (if k \<in> fst ` set al then 1 else 0)"
  using assms
proof (induction al)
  case Nil
  show ?case by simp
next
  case (Cons e al)
  obtain q nd where e: "e = (q, nd)" by (cases e)
  have IH: "sum_list (map (\<lambda>entry. f (snd entry)) al) = (if k \<in> fst ` set al then 1 else 0)"
    using Cons by auto
  have here: "f nd = (if q = k then 1 else 0)"
    using Cons.prems(2) [of q nd] e by simp
  have "q \<notin> fst ` set al"
    using Cons.prems(1) e by auto
  with IH here e show ?case by auto
qed

lemma count_all_children:
  assumes dist: "distinct (map fst al)" and J: "unique_parent (map_of al)"
    and present: "map_of al p \<noteq> None" and nr: "p \<noteq> []"
  shows "count_list (all_children al) p = 1"
proof -
  from J present nr have par: "map_of al (parent_name p) \<noteq> None"
    and cnt: "\<And>q nd. map_of al q = Some nd \<Longrightarrow>
               count_list (kids nd) p = (if q = parent_name p then 1 else 0)"
    unfolding unique_parent_def by blast+
  have "sum_list (map (\<lambda>entry. count_list (kids (snd entry)) p) al)
          = (if parent_name p \<in> fst ` set al then 1 else 0)"
    using dist cnt by (intro sum_list_indicator) (simp_all add: dist)
  moreover have "parent_name p \<in> fst ` set al"
    using par by (simp add: map_of_eq_None_iff)
  ultimately show ?thesis
    by (simp add: all_children_def count_list_concat comp_def)
qed

lemma root_not_in_all_children:
  assumes dist: "distinct (map fst al)" and R: "root_unlisted (map_of al)"
  shows "count_list (all_children al) [] = 0"
proof -
  have "[] \<notin> set (kids nd)" if "(q, nd) \<in> set al" for q nd
  proof -
    from that dist have "map_of al q = Some nd" by simp
    with R show ?thesis unfolding root_unlisted_def by blast
  qed
  then have "[] \<notin> set (all_children al)"
    by (auto simp: all_children_def)
  then show ?thesis by (simp add: count_list_0_iff)
qed

lemma addNode_step:
  fixes state :: "('f, 'm, 'o) SceneTreeState"
  assumes dist: "distinct (map fst (nodeFromName state))"
    and K: "children_registered (map_of (nodeFromName state))"
    and J: "unique_parent (map_of (nodeFromName state))"
    and D: "children_defined (map_of (nodeFromName state))"
    and R: "root_unlisted (map_of (nodeFromName state))"
    and parent: "map_of (nodeFromName state) (parent_name (fst call)) \<noteq> None"
    and plain: "\<not> inherited (fst call)"
  shows "distinct (map fst (nodeFromName (dispatch (addNode call) state)))
     \<and> children_registered (map_of (nodeFromName (dispatch (addNode call) state)))
     \<and> unique_parent (map_of (nodeFromName (dispatch (addNode call) state)))
     \<and> children_defined (map_of (nodeFromName (dispatch (addNode call) state)))
     \<and> root_unlisted (map_of (nodeFromName (dispatch (addNode call) state)))
     \<and> map_of (nodeFromName (dispatch (addNode call) state)) (fst call) \<noteq> None
     \<and> (\<forall>q. map_of (nodeFromName state) q \<noteq> None \<longrightarrow>
            map_of (nodeFromName (dispatch (addNode call) state)) q \<noteq> None)"
proof -
  let ?node = "new_SceneNode (fst call) (snd call)"
  have nm: "name ?node = fst call" and leaf: "children ?node = Some []"
    by (simp_all add: new_SceneNode_def)
  have plain': "\<not> inherited (name ?node)"
    using plain nm by simp
  obtain par where par: "map_of (nodeFromName state) (parent_name (name ?node)) = Some par"
    using parent nm by auto
  from D par obtain cs where cs: "children par = Some cs"
    unfolding children_defined_def by blast
  show ?thesis
  proof (cases "map_of (nodeFromName state) (name ?node)")
    case None
    have eq: "nodeFromName (dispatch (addNode call) state) =
        AList.update (parent_name (name ?node)) (par\<lparr>children := Some (cs @ [name ?node])\<rparr>)
          (AList.update (name ?node) ?node (nodeFromName state))"
      by (simp add: addNode_def dispatch_def addSceneNode_fresh [OF None plain' par cs])
    have ne: "parent_name (name ?node) \<noteq> name ?node"
      using None par by auto
    show ?thesis
      using fresh_step [OF K J D R None par cs leaf] dist ne
      by (simp add: eq update_conv' distinct_update nm)
  next
    case (Some old)
    have eq: "nodeFromName (dispatch (addNode call) state) =
        AList.update (name ?node) (?node\<lparr>children := children old\<rparr>) (nodeFromName state)"
      by (simp add: addNode_def dispatch_def addSceneNode_existing [OF Some])
    show ?thesis
      using readd_step [OF K J D R Some, of "?node\<lparr>children := children old\<rparr>"] dist
      by (simp add: eq update_conv' distinct_update nm)
  qed
qed

lemma addNode_run:
  fixes state :: "('f, 'm, 'o) SceneTreeState"
  assumes "distinct (map fst (nodeFromName state))"
    and "children_registered (map_of (nodeFromName state))"
    and "unique_parent (map_of (nodeFromName state))"
    and "children_defined (map_of (nodeFromName state))"
    and "root_unlisted (map_of (nodeFromName state))"
    and "root_to_leaf calls state"
    and "\<And>call. call \<in> set calls \<Longrightarrow> \<not> inherited (fst call)"
  shows "distinct (map fst (nodeFromName (run (map addNode calls) state)))
     \<and> unique_parent (map_of (nodeFromName (run (map addNode calls) state)))
     \<and> children_defined (map_of (nodeFromName (run (map addNode calls) state)))
     \<and> root_unlisted (map_of (nodeFromName (run (map addNode calls) state)))
     \<and> (\<forall>q. map_of (nodeFromName state) q \<noteq> None \<or> q \<in> fst ` set calls \<longrightarrow>
            map_of (nodeFromName (run (map addNode calls) state)) q \<noteq> None)"
  using assms
proof (induction calls arbitrary: state)
  case Nil
  then show ?case by simp
next
  case (Cons call calls)
  let ?s = "dispatch (addNode call) state :: ('f, 'm, 'o) SceneTreeState"
  let ?t = "run (map addNode calls) ?s"
  have parent: "map_of (nodeFromName state) (parent_name (fst call)) \<noteq> None"
    and rest: "root_to_leaf calls ?s"
    using Cons.prems(6) by simp_all
  have plain: "\<not> inherited (fst call)"
    and plains: "\<And>c. c \<in> set calls \<Longrightarrow> \<not> inherited (fst c)"
    using Cons.prems(7) by simp_all
  note step = addNode_step [OF Cons.prems(1-5) parent plain]
  from step have s1: "distinct (map fst (nodeFromName ?s))"
    and s2: "children_registered (map_of (nodeFromName ?s))"
    and s3: "unique_parent (map_of (nodeFromName ?s))"
    and s3a: "children_defined (map_of (nodeFromName ?s))"
    and s3b: "root_unlisted (map_of (nodeFromName ?s))"
    and s4: "map_of (nodeFromName ?s) (fst call) \<noteq> None"
    and s5: "\<And>q. map_of (nodeFromName state) q \<noteq> None \<Longrightarrow> map_of (nodeFromName ?s) q \<noteq> None"
    by blast+
  have IH: "distinct (map fst (nodeFromName ?t))
     \<and> unique_parent (map_of (nodeFromName ?t))
     \<and> children_defined (map_of (nodeFromName ?t))
     \<and> root_unlisted (map_of (nodeFromName ?t))
     \<and> (\<forall>q. map_of (nodeFromName ?s) q \<noteq> None \<or> q \<in> fst ` set calls \<longrightarrow>
            map_of (nodeFromName ?t) q \<noteq> None)"
    using s1 s2 s3 s3a s3b rest plains by (rule Cons.IH)
  then have t3: "\<And>q. map_of (nodeFromName ?s) q \<noteq> None \<or> q \<in> fst ` set calls \<Longrightarrow>
            map_of (nodeFromName ?t) q \<noteq> None"
    by blast
  have "map_of (nodeFromName ?t) q \<noteq> None"
    if "map_of (nodeFromName state) q \<noteq> None \<or> q \<in> fst ` set (call # calls)" for q
  proof -
    from that have "map_of (nodeFromName ?s) q \<noteq> None \<or> q \<in> fst ` set calls"
      using s4 s5 by auto
    then show ?thesis by (rule t3)
  qed
  with IH show ?case by simp
qed

lemma clean_tree:
  "distinct (map fst (nodeFromName cleanSceneTreeState))"
  "children_registered (map_of (nodeFromName cleanSceneTreeState))"
  "unique_parent (map_of (nodeFromName cleanSceneTreeState))"
  "children_defined (map_of (nodeFromName cleanSceneTreeState))"
  "root_unlisted (map_of (nodeFromName cleanSceneTreeState))"
proof -
  have pn: "parent_name ''/WorldAxes'' = []"
    by (simp add: parent_name_def)
  show "distinct (map fst (nodeFromName cleanSceneTreeState))"
    by (simp add: cleanSceneTreeState_def)
  show "children_registered (map_of (nodeFromName cleanSceneTreeState))"
    by (auto simp: children_registered_def cleanSceneTreeState_def rootNodeTemplate_def
          rootAxesNode_def new_SceneNode_def kids_def split: if_splits)
  show "unique_parent (map_of (nodeFromName cleanSceneTreeState))"
    unfolding unique_parent_def
    by (auto simp: cleanSceneTreeState_def rootNodeTemplate_def
          rootAxesNode_def new_SceneNode_def kids_def pn split: if_splits)
  show "children_defined (map_of (nodeFromName cleanSceneTreeState))"
    by (auto simp: children_defined_def cleanSceneTreeState_def rootNodeTemplate_def
          rootAxesNode_def new_SceneNode_def split: if_splits)
  show "root_unlisted (map_of (nodeFromName cleanSceneTreeState))"
    by (auto simp: root_unlisted_def cleanSceneTreeState_def rootNodeTemplate_def
          rootAxesNode_def new_SceneNode_def kids_def split: if_splits)
qed


section \<open>Re-adding an existing path\<close>

text \<open>
  Claim C4. When the registry already holds an entry at the path of the node being added,
  \<open>addSceneNode\<close> succeeds, whether the node object is frozen or not; the entry at that
  path becomes the new node's name and factory with the child list of the stored entry,
  in the same order, every other registry entry is looked up as before, and the
  visibility, matrix and object overlays are the same dictionaries as before.
\<close>

theorem addSceneNode_existing_keeps_children:
  assumes "map_of (nodeFromName state) (name node) = Some old"
  shows "\<exists>state'. addSceneNode frozen node state = Inr state'
     \<and> dispatch (AddSceneNode frozen node) state = state'
     \<and> map_of (nodeFromName state') (name node) =
         Some \<lparr>name = name node, make_object = make_object node, children = children old\<rparr>
     \<and> (\<forall>q. q \<noteq> name node \<longrightarrow> map_of (nodeFromName state') q = map_of (nodeFromName state) q)
     \<and> visibilityFromName state' = visibilityFromName state
     \<and> matrixFromName state' = matrixFromName state
     \<and> objFromName state' = objFromName state"
  by (simp add: addSceneNode_existing [OF assms] dispatch_def update_conv')

theorem addSceneNode_existing_keeps_children_witness:
  "map_of (nodeFromName clean0) [] = Some rootNodeTemplate
   \<and> map_of (nodeFromName (dispatch (AddSceneNode False (new_SceneNode [] (Factory ()))) clean0)) []
       = Some \<lparr>name = [], make_object = Factory (), children = Some [''/WorldAxes'']\<rparr>
   \<and> map_of (nodeFromName (dispatch (AddSceneNode False (new_SceneNode [] (Factory ()))) clean0))
       ''/WorldAxes'' = Some rootAxesNode"
proof -
  have h: "map_of (nodeFromName clean0) (name (new_SceneNode [] (Factory ()) :: unit SceneNode))
             = Some rootNodeTemplate"
    by (simp add: clean0_def cleanSceneTreeState_def new_SceneNode_def)
  show ?thesis
    using h addSceneNode_existing_keeps_children [OF h, of False]
    by (auto simp: new_SceneNode_def rootNodeTemplate_def clean0_def cleanSceneTreeState_def
          kids_def)
qed

section \<open>Removing an absent path\<close>

text \<open>
  Claim C5, amended. When the path is not a key of the registry and is not a property
  name inherited from \<^verbatim>\<open>Object.prototype\<close>, \<open>removeSceneNode\<close> returns the state it was
  given: the registry and the three overlays are unchanged, and so is the store.
\<close>

theorem removeSceneNode_absent_noop:
  assumes "map_of (nodeFromName state) p = None" and "\<not> inherited p"
  shows "removeSceneNode p state = Inr state \<and> dispatch (RemoveSceneNode p) state = state"
  using assms by (simp add: removeSceneNode_def dispatch_def js_in_iff)

theorem removeSceneNode_absent_noop_witness:
  "map_of (nodeFromName clean0) ''/box'' = None \<and> \<not> inherited ''/box''
   \<and> dispatch (RemoveSceneNode ''/box'') clean0 = clean0"
proof -
  have h: "map_of (nodeFromName clean0) ''/box'' = None"
    by (simp add: clean0_def cleanSceneTreeState_def)
  have p: "\<not> inherited ''/box''"
    by (simp add: inherited_def Object_prototype_names_def)
  show ?thesis
    using h p removeSceneNode_absent_noop [OF h p] by simp
qed

text \<open>
  The claim as stated covers every path that has no registry entry. \<open>constructor\<close> has
  none, but it is \<^verbatim>\<open>in\<close> the registry object, so the removal goes on: after a visibility
  write to \<open>constructor\<close>, removing \<open>constructor\<close> deletes that overlay entry, and the
  state is not the one before the call.
\<close>

theorem removeSceneNode_constructor_not_noop:
  "map_of (nodeFromName (run [SetVisibility ''constructor'' False] clean0)) ''constructor'' = None
   \<and> map_of (visibilityFromName (run [SetVisibility ''constructor'' False] clean0))
       ''constructor'' = Some False
   \<and> map_of (visibilityFromName
        (dispatch (RemoveSceneNode ''constructor'')
           (run [SetVisibility ''constructor'' False] clean0))) ''constructor'' = None
   \<and> dispatch (RemoveSceneNode ''constructor'') (run [SetVisibility ''constructor'' False] clean0)
       \<noteq> run [SetVisibility ''constructor'' False] clean0"
  by code_simp

section \<open>Adding a node whose parent is missing\<close>




section \<open>Visibility writes\<close>

text \<open>
  Claim C8, amended. Two \<open>setVisibility\<close> actions on the same path leave the store in
  the state that the second one alone produces, for every path; and for every path other
  than \<open>__proto__\<close> that state maps the path to the second value.
\<close>

theorem setVisibility_last_write_wins:
  "dispatch (SetVisibility p v2) (dispatch (SetVisibility p v1) state)
     = dispatch (SetVisibility p v2) state
   \<and> (p \<noteq> ''__proto__'' \<longrightarrow>
        map_of (visibilityFromName
          (dispatch (SetVisibility p v2) (dispatch (SetVisibility p v1) state))) p = Some v2)"
  by (simp add: dispatch_def setVisibility_def assign_primitive_twice assign_primitive_plain
        update_conv')

theorem setVisibility_last_write_wins_witness:
  "''/box'' \<noteq> ''__proto__''
   \<and> dispatch (SetVisibility ''/box'' False) (dispatch (SetVisibility ''/box'' True) clean0)
       = dispatch (SetVisibility ''/box'' False) clean0
   \<and> map_of (visibilityFromName
        (dispatch (SetVisibility ''/box'' False) (dispatch (SetVisibility ''/box'' True) clean0)))
        ''/box'' = Some False"
proof -
  have ne: "''/box'' \<noteq> ''__proto__''" by simp
  from setVisibility_last_write_wins [of "''/box''" False True clean0] ne
  show ?thesis by blast
qed

text \<open>
  The claim as stated has the overlay map every path to the latest value. A write of a
  boolean to the key \<open>__proto__\<close> is ignored: after two such writes to the initial state
  the overlay has no entry for \<open>__proto__\<close> and is the overlay of the initial state.
\<close>

theorem setVisibility_proto_not_recorded:
  "map_of (visibilityFromName
     (dispatch (SetVisibility ''__proto__'' False)
        (dispatch (SetVisibility ''__proto__'' True) clean0))) ''__proto__'' = None
   \<and> visibilityFromName
        (dispatch (SetVisibility ''__proto__'' False)
           (dispatch (SetVisibility ''__proto__'' True) clean0))
       = visibilityFromName clean0"
  by code_simp

text \<open>
  Claim C9, amended. For every path other than \<open>__proto__\<close>, whether or not the path or
  its parent is in the registry, \<open>setVisibility\<close> does not throw and records the value,
  and a following \<open>addSceneNode\<close> of a node with that path, whether it succeeds or
  throws, leaves the visibility overlay as the write left it, so the recorded value
  stands. When the path is not a key of the registry and not an inherited name, and its
  parent is in the registry with a child list, that add succeeds and stores the node; from
  such a state \<open>addSceneNode\<close> writes \<open>True\<close> for the path exactly when the overlay has
  no entry for it. From any state at all, \<open>addSceneNode\<close> leaves the overlay alone when
  it has an entry for the path.
\<close>

theorem setVisibility_before_addSceneNode:
  assumes np: "name node \<noteq> ''__proto__''"
  shows "body (SetVisibility (name node) v) state = Inr (setVisibility (name node) v state)
       \<and> map_of (visibilityFromName (setVisibility (name node) v state)) (name node) = Some v
       \<and> visibilityFromName (dispatch (AddSceneNode frozen node) (setVisibility (name node) v state))
           = visibilityFromName (setVisibility (name node) v state)
       \<and> (\<forall>par cs. map_of (nodeFromName state) (name node) = None \<longrightarrow>
             \<not> inherited (name node) \<longrightarrow>
             map_of (nodeFromName state) (parent_name (name node)) = Some par \<longrightarrow>
             children par = Some cs \<longrightarrow>
             (\<exists>state'. addSceneNode frozen node (setVisibility (name node) v state) = Inr state'
                \<and> map_of (nodeFromName state') (name node) = Some node
                \<and> map_of (visibilityFromName state') (name node) = Some v)
           \<and> (\<exists>state'. addSceneNode frozen node state = Inr state'
                \<and> visibilityFromName state' =
                    (case map_of (visibilityFromName state) (name node) of
                       None \<Rightarrow> AList.update (name node) True (visibilityFromName state)
                     | Some b \<Rightarrow> visibilityFromName state)))
       \<and> (map_of (visibilityFromName state) (name node) \<noteq> None \<longrightarrow>
             visibilityFromName (dispatch (AddSceneNode frozen node) state)
               = visibilityFromName state)"
proof -
  let ?s1 = "setVisibility (name node) v state"
  have v1: "map_of (visibilityFromName ?s1) (name node) = Some v"
    using np by (simp add: setVisibility_def assign_primitive_plain update_conv')
  then have v1': "map_of (visibilityFromName ?s1) (name node) \<noteq> None"
    by simp
  have keep: "visibilityFromName (dispatch (AddSceneNode frozen node) ?s1)
           = visibilityFromName ?s1"
    using v1' by (rule addSceneNode_keeps_visibility_entry)
  have fresh: "(\<exists>state'. addSceneNode frozen node ?s1 = Inr state'
                \<and> map_of (nodeFromName state') (name node) = Some node
                \<and> map_of (visibilityFromName state') (name node) = Some v)
           \<and> (\<exists>state'. addSceneNode frozen node state = Inr state'
                \<and> visibilityFromName state' =
                    (case map_of (visibilityFromName state) (name node) of
                       None \<Rightarrow> AList.update (name node) True (visibilityFromName state)
                     | Some b \<Rightarrow> visibilityFromName state))"
    if absent: "map_of (nodeFromName state) (name node) = None"
      and plain: "\<not> inherited (name node)"
      and parent: "map_of (nodeFromName state) (parent_name (name node)) = Some par"
      and cs: "children par = Some cs" for par cs
  proof -
    have a1: "map_of (nodeFromName ?s1) (name node) = None"
      using absent by (simp add: setVisibility_def)
    have p1: "map_of (nodeFromName ?s1) (parent_name (name node)) = Some par"
      using parent by (simp add: setVisibility_def)
    have ne: "parent_name (name node) \<noteq> name node"
      using absent parent by auto
    show ?thesis
      using v1 ne
      by (auto simp: addSceneNode_fresh [OF a1 plain p1 cs]
            addSceneNode_fresh [OF absent plain parent cs] update_conv')
  qed
  have only: "map_of (visibilityFromName state) (name node) \<noteq> None \<longrightarrow>
             visibilityFromName (dispatch (AddSceneNode frozen node) state)
               = visibilityFromName state"
    using addSceneNode_keeps_visibility_entry by blast
  show ?thesis
    using v1 keep fresh only by auto
qed

theorem setVisibility_before_addSceneNode_witness:
  "''/a/b'' \<noteq> ''__proto__''
   \<and> map_of (nodeFromName clean0) (parent_name ''/a/b'') = None
   \<and> map_of (visibilityFromName (setVisibility ''/a/b'' False clean0)) ''/a/b'' = Some False
   \<and> map_of (visibilityFromName
        (dispatch (AddSceneNode False (new_SceneNode ''/a/b'' (Factory ())))
           (setVisibility ''/a/b'' False clean0))) ''/a/b'' = Some False
   \<and> map_of (nodeFromName clean0) ''/box'' = None
   \<and> map_of (nodeFromName clean0) (parent_name ''/box'') = Some rootNodeTemplate
   \<and> (\<exists>state'. addSceneNode False (new_SceneNode ''/box'' (Factory ()))
                  (setVisibility ''/box'' False clean0) = Inr state'
         \<and> map_of (visibilityFromName state') ''/box'' = Some False)"
proof -
  let ?n = "new_SceneNode ''/a/b'' (Factory ()) :: unit SceneNode"
  let ?b = "new_SceneNode ''/box'' (Factory ()) :: unit SceneNode"
  have nm: "name ?n = ''/a/b''" and bm: "name ?b = ''/box''"
    by (simp_all add: new_SceneNode_def)
  have n1: "name ?n \<noteq> ''__proto__''" and b1: "name ?b \<noteq> ''__proto__''"
    by (simp_all add: nm bm)
  have h0: "map_of (nodeFromName clean0) (parent_name ''/a/b'') = None"
    by (simp add: clean0_def cleanSceneTreeState_def parent_name_def)
  have h1: "map_of (nodeFromName clean0) ''/box'' = None"
    by (simp add: clean0_def cleanSceneTreeState_def)
  have h2: "map_of (nodeFromName clean0) (parent_name ''/box'') = Some rootNodeTemplate"
    by (simp add: clean0_def cleanSceneTreeState_def parent_name_def)
  have h3: "\<not> inherited ''/box''"
    by (simp add: inherited_def Object_prototype_names_def)
  have h4: "children (rootNodeTemplate :: unit SceneNode) = Some [''/WorldAxes'']"
    by (simp add: rootNodeTemplate_def new_SceneNode_def kids_def)
  have early: "map_of (visibilityFromName (setVisibility ''/a/b'' False clean0)) ''/a/b''
                 = Some False
     \<and> map_of (visibilityFromName
          (dispatch (AddSceneNode False ?n) (setVisibility ''/a/b'' False clean0))) ''/a/b''
         = Some False"
    using setVisibility_before_addSceneNode [OF n1, of False clean0 False]
    by (simp add: nm)
  have late: "\<exists>state'. addSceneNode False ?b (setVisibility ''/box'' False clean0) = Inr state'
         \<and> map_of (visibilityFromName state') ''/box'' = Some False"
    using setVisibility_before_addSceneNode [OF b1, of False clean0 False] h1 h2 h3 h4
    by (simp add: bm) blast
  show ?thesis
    using h0 h1 h2 early late by simp
qed

text \<open>
  The claim as stated covers every path that has no registry entry. \<open>__proto__\<close> has
  none; the write of a boolean to it does not throw and records nothing.
\<close>

theorem setVisibility_proto_absent_not_recorded:
  "map_of (nodeFromName clean0) ''__proto__'' = None
   \<and> body (SetVisibility ''__proto__'' False) clean0 = Inr clean0
   \<and> map_of (visibilityFromName (setVisibility ''__proto__'' False clean0)) ''__proto__'' = None"
  by code_simp

section \<open>Removal, evaluated\<close>

text \<open>
  Claim C1. The scene holds \<open>/a\<close>, \<open>/a/b\<close> and \<open>/ab\<close>. Removing \<open>/a\<close> deletes
  \<open>/a\<close> and \<open>/a/b\<close> from the registry, and it deletes \<open>/ab\<close> as well: the key
  \<open>/ab\<close> starts with \<open>/a\<close>.
\<close>

theorem removeSceneNode_deletes_textual_sibling:
  "map_of (nodeFromName (run add_a_ab clean0)) ''/ab''
     = Some \<lparr>name = ''/ab'', make_object = Factory (), children = Some []\<rparr>
   \<and> map_of (nodeFromName (run (add_a_ab @ [RemoveSceneNode ''/a'']) clean0)) ''/a'' = None
   \<and> map_of (nodeFromName (run (add_a_ab @ [RemoveSceneNode ''/a'']) clean0)) ''/a/b'' = None
   \<and> map_of (nodeFromName (run (add_a_ab @ [RemoveSceneNode ''/a'']) clean0)) ''/ab'' = None"
  by code_simp

text \<open>
  Claim C3. Add \<open>/box\<close>, add \<open>/box/label\<close>, hide \<open>/box\<close>, remove \<open>/box\<close>. Both
  paths leave the registry and \<open>/box\<close> leaves the visibility overlay, but the visibility
  entry that the add wrote for \<open>/box/label\<close> is still there.
\<close>

theorem removeSceneNode_leaves_descendant_visibility:
  "map_of (nodeFromName (run (box_scene @ [RemoveSceneNode ''/box'']) clean0)) ''/box'' = None
   \<and> map_of (nodeFromName (run (box_scene @ [RemoveSceneNode ''/box'']) clean0)) ''/box/label''
       = None
   \<and> map_of (visibilityFromName (run (box_scene @ [RemoveSceneNode ''/box'']) clean0)) ''/box''
       = None
   \<and> map_of (visibilityFromName (run (box_scene @ [RemoveSceneNode ''/box'']) clean0))
       ''/box/label'' = Some True"
  by code_simp

section \<open>Reset, evaluated\<close>

text \<open>
  Claim C2. After adding \<open>/box\<close> to the initial state, \<open>resetScene\<close> leaves \<open>/box\<close>
  in the registry: the store is not back in its initial state.
\<close>

theorem resetScene_keeps_added_node:
  "map_of (nodeFromName clean0) ''/box'' = None
   \<and> map_of (nodeFromName (run [addNode (''/box'', Factory ()), ResetScene] clean0)) ''/box''
       = Some \<lparr>name = ''/box'', make_object = Factory (), children = Some []\<rparr>
   \<and> run [addNode (''/box'', Factory ()), ResetScene] clean0 \<noteq> clean0"
  by code_simp

section \<open>Removing the root\<close>

text \<open>
  Claim C10, amended. In every state that a list of actions reaches from the initial
  state and in which the root path is a key of the registry, \<open>removeSceneNode\<close> of the
  root path does not throw and leaves the registry empty: the parent of the root path is
  the root path, and every key starts with the empty string. The visibility and matrix
  overlays keep the entry of every path other than the root path, and the object overlay
  is untouched. In a reached state without the root, \<open>removeSceneNode\<close> of the root path
  returns the state it was given.
\<close>

theorem removeSceneNode_root_empties_registry:
  "(map_of (nodeFromName (run as cleanSceneTreeState)) [] \<noteq> None \<longrightarrow>
      (\<exists>state'. removeSceneNode [] (run as cleanSceneTreeState) = Inr state'
         \<and> dispatch (RemoveSceneNode []) (run as cleanSceneTreeState) = state'
         \<and> nodeFromName state' = []
         \<and> (\<forall>q. q \<noteq> [] \<longrightarrow>
                map_of (visibilityFromName state') q
                  = map_of (visibilityFromName (run as cleanSceneTreeState)) q
              \<and> map_of (matrixFromName state') q
                  = map_of (matrixFromName (run as cleanSceneTreeState)) q)
         \<and> objFromName state' = objFromName (run as cleanSceneTreeState)))
   \<and> (map_of (nodeFromName (run as cleanSceneTreeState)) [] = None \<longrightarrow>
        removeSceneNode [] (run as cleanSceneTreeState) = Inr (run as cleanSceneTreeState)
      \<and> dispatch (RemoveSceneNode []) (run as cleanSceneTreeState)
          = run as cleanSceneTreeState)"
proof (intro conjI impI)
  assume "map_of (nodeFromName (run as cleanSceneTreeState)) [] \<noteq> None"
  then obtain root where
    root: "map_of (nodeFromName (run as cleanSceneTreeState)) [] = Some root"
    by auto
  then have "children root \<noteq> None" by (rule run_root_children)
  then obtain cs where cs: "children root = Some cs" by auto
  show "\<exists>state'. removeSceneNode [] (run as cleanSceneTreeState) = Inr state'
         \<and> dispatch (RemoveSceneNode []) (run as cleanSceneTreeState) = state'
         \<and> nodeFromName state' = []
         \<and> (\<forall>q. q \<noteq> [] \<longrightarrow>
                map_of (visibilityFromName state') q
                  = map_of (visibilityFromName (run as cleanSceneTreeState)) q
              \<and> map_of (matrixFromName state') q
                  = map_of (matrixFromName (run as cleanSceneTreeState)) q)
         \<and> objFromName state' = objFromName (run as cleanSceneTreeState)"
    by (simp add: removeSceneNode_root [OF root cs] dispatch_def)
next
  assume absent: "map_of (nodeFromName (run as cleanSceneTreeState)) [] = None"
  then show "removeSceneNode [] (run as cleanSceneTreeState) = Inr (run as cleanSceneTreeState)"
    using not_inherited_root by (simp add: removeSceneNode_def js_in_iff)
  then show "dispatch (RemoveSceneNode []) (run as cleanSceneTreeState)
          = run as cleanSceneTreeState"
    by (simp add: dispatch_def)
qed

theorem removeSceneNode_root_empties_registry_witness:
  "map_of (nodeFromName (run box_scene clean0)) [] \<noteq> None
   \<and> map_of (nodeFromName (run box_scene clean0)) ''/box/label''
     = Some \<lparr>name = ''/box/label'', make_object = Factory (), children = Some []\<rparr>
   \<and> nodeFromName (dispatch (RemoveSceneNode []) (run box_scene clean0)) = []
   \<and> map_of (visibilityFromName (dispatch (RemoveSceneNode []) (run box_scene clean0))) ''/box''
       = Some False
   \<and> map_of (visibilityFromName (dispatch (RemoveSceneNode []) (run box_scene clean0)))
       ''/WorldAxes'' = Some True"
proof -
  have h0: "map_of (nodeFromName (run box_scene cleanSceneTreeState)) [] \<noteq> None"
    by code_simp
  have h1: "map_of (nodeFromName (run box_scene clean0)) ''/box/label''
     = Some \<lparr>name = ''/box/label'', make_object = Factory (), children = Some []\<rparr>"
    by code_simp
  have h2: "map_of (visibilityFromName (run box_scene clean0)) ''/box'' = Some False"
    by code_simp
  have h3: "map_of (visibilityFromName (run box_scene clean0)) ''/WorldAxes'' = Some True"
    by code_simp
  show ?thesis
    using h0 h1 h2 h3 removeSceneNode_root_empties_registry [of box_scene]
    by (auto simp: clean0_def)
qed

text \<open>
  The claim as stated covers every state and takes the root to be always present. After
  the actions of \<open>toString_scene\<close> the root is not in the registry, \<open>removeSceneNode\<close>
  of the root path is the logged return, and the registry still holds the entry of
  \<open>toString\<close>.
\<close>

theorem removeSceneNode_root_absent_keeps_registry:
  "map_of (nodeFromName (run toString_scene clean0)) [] = None
   \<and> removeSceneNode [] (run toString_scene clean0) = Inr (run toString_scene clean0)
   \<and> nodeFromName (dispatch (RemoveSceneNode []) (run toString_scene clean0))
       = [(''toString'', \<lparr>name = ''toString'', make_object = Factory (), children = None\<rparr>)]"
  by code_simp

section \<open>Sequences of adds in root-to-leaf order\<close>

text \<open>
  Claim C7, amended. Start from the initial state and issue a list of adds in
  root-to-leaf order, each of a node just built by the constructor from a path and a
  factory, no path a property name inherited from \<^verbatim>\<open>Object.prototype\<close>. Then every path
  of the resulting registry other than the root path occurs exactly once in all child
  lists taken together; that occurrence is in the child list of the entry at its parent
  path, and no other entry has it in its child list. The root path occurs in no child
  list. Every path that was added is in the registry.
\<close>

theorem addNode_sequence_unique_parent:
  fixes calls :: "(string \<times> 'f MakeObject) list"
    and final :: "('f, 'm, 'o) SceneTreeState"
  assumes order: "root_to_leaf calls (cleanSceneTreeState :: ('f, 'm, 'o) SceneTreeState)"
    and plain: "\<forall>call \<in> set calls. \<not> inherited (fst call)"
    and final: "final = run (map addNode calls) cleanSceneTreeState"
  shows "(\<forall>p. map_of (nodeFromName final) p \<noteq> None \<longrightarrow> p \<noteq> [] \<longrightarrow>
            count_list (all_children (nodeFromName final)) p = 1
          \<and> (\<exists>par cs. map_of (nodeFromName final) (parent_name p) = Some par
                \<and> children par = Some cs \<and> count_list cs p = 1)
          \<and> (\<forall>q nd. map_of (nodeFromName final) q = Some nd \<longrightarrow> q \<noteq> parent_name p \<longrightarrow>
                p \<notin> set (kids nd)))
     \<and> count_list (all_children (nodeFromName final)) [] = 0
     \<and> (\<forall>call \<in> set calls. map_of (nodeFromName final) (fst call) \<noteq> None)"
proof -
  have plain': "\<And>call. call \<in> set calls \<Longrightarrow> \<not> inherited (fst call)"
    using plain by blast
  note inv = addNode_run [OF clean_tree order plain', folded final]
  from inv have dist: "distinct (map fst (nodeFromName final))"
    and J: "unique_parent (map_of (nodeFromName final))"
    and D: "children_defined (map_of (nodeFromName final))"
    and R: "root_unlisted (map_of (nodeFromName final))"
    and added: "\<And>q. q \<in> fst ` set calls \<Longrightarrow> map_of (nodeFromName final) q \<noteq> None"
    by blast+
  have each: "count_list (all_children (nodeFromName final)) p = 1
          \<and> (\<exists>par cs. map_of (nodeFromName final) (parent_name p) = Some par
                \<and> children par = Some cs \<and> count_list cs p = 1)
          \<and> (\<forall>q nd. map_of (nodeFromName final) q = Some nd \<longrightarrow> q \<noteq> parent_name p \<longrightarrow>
                p \<notin> set (kids nd))"
    if pres: "map_of (nodeFromName final) p \<noteq> None" and not_root: "p \<noteq> []" for p
  proof -
    from J pres not_root have par: "map_of (nodeFromName final) (parent_name p) \<noteq> None"
      and cnt: "\<And>q nd. map_of (nodeFromName final) q = Some nd \<Longrightarrow>
                 count_list (kids nd) p = (if q = parent_name p then 1 else 0)"
      unfolding unique_parent_def by blast+
    have "count_list (all_children (nodeFromName final)) p = 1"
      using dist J pres not_root by (rule count_all_children)
    moreover have "\<exists>par cs. map_of (nodeFromName final) (parent_name p) = Some par
                \<and> children par = Some cs \<and> count_list cs p = 1"
    proof -
      from par obtain pr where pr: "map_of (nodeFromName final) (parent_name p) = Some pr"
        by auto
      from D pr obtain cs where cs: "children pr = Some cs"
        unfolding children_defined_def by blast
      from cnt [OF pr] cs have "count_list cs p = 1" by (simp add: kids_def)
      with pr cs show ?thesis by blast
    qed
    moreover have "\<forall>q nd. map_of (nodeFromName final) q = Some nd \<longrightarrow> q \<noteq> parent_name p \<longrightarrow>
              p \<notin> set (kids nd)"
      using cnt by (auto simp flip: count_list_0_iff)
    ultimately show ?thesis by blast
  qed
  have "count_list (all_children (nodeFromName final)) [] = 0"
    using dist R by (rule root_not_in_all_children)
  moreover have "\<forall>call \<in> set calls. map_of (nodeFromName final) (fst call) \<noteq> None"
    using added by auto
  ultimately show ?thesis using each by blast
qed

theorem addNode_sequence_unique_parent_witness:
  "root_to_leaf tree_calls clean0
   \<and> map_of (nodeFromName (run (map addNode tree_calls) clean0)) ''/a/b''
       = Some \<lparr>name = ''/a/b'', make_object = Factory (), children = Some []\<rparr>
   \<and> count_list (all_children (nodeFromName (run (map addNode tree_calls) clean0))) ''/a/b'' = 1
   \<and> (\<exists>par cs. map_of (nodeFromName (run (map addNode tree_calls) clean0))
                  (parent_name ''/a/b'') = Some par
          \<and> children par = Some cs \<and> count_list cs ''/a/b'' = 1)
   \<and> count_list (all_children (nodeFromName (run (map addNode tree_calls) clean0))) [] = 0"
proof -
  have h1: "root_to_leaf tree_calls (cleanSceneTreeState :: example_state)"
    by code_simp
  have h2: "map_of (nodeFromName (run (map addNode tree_calls) clean0)) ''/a/b''
       = Some \<lparr>name = ''/a/b'', make_object = Factory (), children = Some []\<rparr>"
    by code_simp
  have h3: "\<forall>call \<in> set tree_calls. \<not> inherited (fst call)"
    by (simp add: tree_calls_def inherited_def Object_prototype_names_def)
  have h0: "run (map addNode tree_calls) clean0 = run (map addNode tree_calls) cleanSceneTreeState"
    by (simp add: clean0_def)
  have h4: "''/a/b'' \<noteq> []" by simp
  have h5: "map_of (nodeFromName (run (map addNode tree_calls) clean0)) ''/a/b'' \<noteq> None"
    using h2 by simp
  show ?thesis
    using h1 h2 h4 h5 addNode_sequence_unique_parent [OF h1 h3 h0]
    by (simp add: clean0_def)
qed

text \<open>
  The claim as stated speaks of every node and every add. Three adds from the initial
  state, each with its parent path in the registry: re-adding the root leaves the root
  path, an added path, in no child list; adding \<open>toString\<close> takes the branch for an
  existing path and leaves it in no child list; and adding a node whose child list the
  caller has filled with its own path leaves the path in two child lists.
\<close>

theorem addNode_sequence_exceptions:
  "root_to_leaf root_call clean0
   \<and> map_of (nodeFromName (run (map addNode root_call) clean0)) []
       = Some \<lparr>name = [], make_object = Factory (), children = Some [''/WorldAxes'']\<rparr>
   \<and> count_list (all_children (nodeFromName (run (map addNode root_call) clean0))) [] = 0
   \<and> root_to_leaf toString_call clean0
   \<and> map_of (nodeFromName (run (map addNode toString_call) clean0)) ''toString''
       = Some \<lparr>name = ''toString'', make_object = Factory (), children = None\<rparr>
   \<and> count_list (all_children (nodeFromName (run (map addNode toString_call) clean0)))
       ''toString'' = 0
   \<and> map_of (nodeFromName clean0) (parent_name (name prefilled_node))
       = Some rootNodeTemplate
   \<and> count_list (all_children (nodeFromName (run [AddSceneNode False prefilled_node] clean0)))
       ''/a'' = 2"
  by code_simp

end
